theory Spec2Isabelle
  imports Complex_Main "HOL-Library.Multiset"
begin

section \<open>The heartbeat history strip of the Uptime Kuma panel\<close>

text \<open>
  This theory embeds \<^verbatim>\<open>buildHistorySegments\<close> of
  \<^verbatim>\<open>src/components/sections/UptimeKuma.tsx\<close> (lines 228 to 246): the function that
  turns the heartbeats of one monitor into the fixed number of cells of the history strip.
  \<^verbatim>\<open>
  const buildHistorySegments = (heartbeats: Heartbeat[], size = 24) => {
    if (heartbeats.length === 0) {
      return [];
    }
    const sorted = [...heartbeats].sort(
      (a, b) => new Date(a.time).getTime() - new Date(b.time).getTime()
    );
    const chunkSize = Math.ceil(sorted.length / size);
    const startIndex = Math.max(0, sorted.length - chunkSize * size);
    const recent = sorted.slice(startIndex);
    const lastHeartbeat = recent[recent.length - 1];
    return Array.from({ length: size }, (_, index) => {
      const chunk = recent.slice(index * chunkSize, (index + 1) * chunkSize);
      if (chunk.length) {
        return chunk[chunk.length - 1];
      }
      return lastHeartbeat;
    });
  };
  \<close>
\<close>

subsection \<open>Data\<close>

text \<open>
  The interface \<^verbatim>\<open>Heartbeat\<close> (lines 68 to 78). The function only reads \<^verbatim>\<open>time\<close>; the
  numeric fields are carried along untouched and are modelled as integers. The field
  \<^verbatim>\<open>id\<close> is called \<open>id_hb\<close>, since \<open>id\<close> is the identity function of HOL.
\<close>

record heartbeat =
  id_hb :: int
  monitor_id :: int
  status :: int
  msg :: string
  time :: string
  ping :: int
  duration :: int
  down_count :: int
  important :: int

text \<open>
  \<^verbatim>\<open>new Date(s).getTime()\<close> is a built-in of the language, not code of the repository, and
  the set of strings it accepts depends on the engine. It is a parameter \<open>getTime\<close> of the
  model: \<open>Some t\<close> is the time value \<open>t\<close> (an integral number of milliseconds since the
  epoch), \<open>None\<close> is \<^verbatim>\<open>NaN\<close>, the result for a string that does not parse.
\<close>

type_synonym clock = "string \<Rightarrow> int option"

text \<open>
  A JavaScript number that is either an integer or \<^verbatim>\<open>NaN\<close> (\<open>None\<close>): the result of the
  comparison function handed to \<^verbatim>\<open>sort\<close>.
\<close>

type_synonym 'a comparefn = "'a \<Rightarrow> 'a \<Rightarrow> int option"

subsection \<open>Array primitives\<close>

text \<open>
  \<^verbatim>\<open>xs[i]\<close>: the element, or \<^verbatim>\<open>undefined\<close> (\<open>None\<close>) when \<open>i\<close> is not an index of
  the array; in particular \<^verbatim>\<open>xs[xs.length - 1]\<close> of the empty array reads index \<open>-1\<close>
  and is \<^verbatim>\<open>undefined\<close>.
\<close>

definition at_index :: "'a list \<Rightarrow> int \<Rightarrow> 'a option" where
  "at_index xs i = (if 0 \<le> i \<and> i < int (length xs) then Some (xs ! nat i) else None)"

text \<open>
  \<^verbatim>\<open>xs.slice(start)\<close> and \<^verbatim>\<open>xs.slice(start, end)\<close> for indices that are not negative:
  both bounds are clamped to the length, and the result is empty when the end is not after the start.
\<close>

definition slice_from :: "'a list \<Rightarrow> nat \<Rightarrow> 'a list" where
  "slice_from xs start = drop start xs"

definition slice :: "'a list \<Rightarrow> nat \<Rightarrow> nat \<Rightarrow> 'a list" where
  "slice xs start stop = take (stop - start) (drop start xs)"

text \<open>
  \<^verbatim>\<open>Array.prototype.sort\<close> with a comparison function. The language turns a \<^verbatim>\<open>NaN\<close>
  returned by the comparison into \<open>+0\<close> (abstract operation SortCompare), and the sort is
  stable. For a consistent comparison function this fixes the result; it is computed here by
  a stable insertion sort. For an inconsistent one (which needs a \<^verbatim>\<open>NaN\<close> timestamp among
  at least three heartbeats) the language leaves the order to the engine, and the insertion
  sort is then one admissible behaviour.
\<close>

definition sortCompare :: "'a comparefn \<Rightarrow> 'a \<Rightarrow> 'a \<Rightarrow> int" where
  "sortCompare comparefn a b = (case comparefn a b of None \<Rightarrow> 0 | Some v \<Rightarrow> v)"

fun insertSorted :: "'a comparefn \<Rightarrow> 'a \<Rightarrow> 'a list \<Rightarrow> 'a list" where
  "insertSorted comparefn x [] = [x]"
| "insertSorted comparefn x (y # ys) =
     (if sortCompare comparefn x y \<le> 0 then x # y # ys
      else y # insertSorted comparefn x ys)"

definition js_sort :: "'a comparefn \<Rightarrow> 'a list \<Rightarrow> 'a list" where
  "js_sort comparefn xs = foldr (insertSorted comparefn) xs []"

subsection \<open>buildHistorySegments\<close>

text \<open>
  The comparison function \<^verbatim>\<open>(a, b) => new Date(a.time).getTime() - new Date(b.time).getTime()\<close>.
  A subtraction with a \<^verbatim>\<open>NaN\<close> operand is \<^verbatim>\<open>NaN\<close>. Time values are integers of
  magnitude at most \<open>8.64 * 10^15\<close>, so the floating-point difference has the sign of the
  exact one, and only the sign is used.
\<close>

definition timeOf :: "clock \<Rightarrow> heartbeat \<Rightarrow> int option" where
  "timeOf getTime a = getTime (time a)"

definition compareTime :: "clock \<Rightarrow> heartbeat comparefn" where
  "compareTime getTime a b =
     (case timeOf getTime a of
        None \<Rightarrow> None
      | Some ta \<Rightarrow> (case timeOf getTime b of None \<Rightarrow> None | Some tb \<Rightarrow> Some (ta - tb)))"

definition sortedByTime :: "clock \<Rightarrow> heartbeat list \<Rightarrow> heartbeat list" where
  "sortedByTime getTime heartbeats = js_sort (compareTime getTime) heartbeats"

text \<open>
  \<^verbatim>\<open>Math.ceil(sorted.length / size)\<close> for a length \<open>n\<close> and a positive \<open>sz\<close>, in integer
  arithmetic (lemma \<open>chunkSize_ceiling\<close> below relates it to the ceiling of the quotient;
  array lengths are below \<open>2^32\<close>, where the floating-point quotient rounds to an integer
  only if it is one). For \<open>sz = 0\<close> the source computes \<^verbatim>\<open>Infinity\<close>, but
  \<^verbatim>\<open>Array.from({ length: 0 }, ...)\<close> then produces no cell and never reads it. So
  \<open>chunkSize\<close>, \<open>startIndex\<close>, \<open>recent\<close>, \<open>lastHeartbeat\<close>, \<open>chunk\<close> and \<open>segment\<close> are
  the constants of the source for a positive \<open>sz\<close>, and every statement about them below
  assumes \<open>0 < sz\<close>.

  \<^verbatim>\<open>Math.max(0, sorted.length - chunkSize * size)\<close> is computed on integers and is never
  negative, so the start index is a natural number.
\<close>

definition chunkSize :: "nat \<Rightarrow> nat \<Rightarrow> nat" where
  "chunkSize n sz = (n + sz - 1) div sz"

definition startIndex :: "nat \<Rightarrow> nat \<Rightarrow> nat" where
  "startIndex n sz = nat (max 0 (int n - int (chunkSize n sz * sz)))"

definition recent :: "clock \<Rightarrow> heartbeat list \<Rightarrow> nat \<Rightarrow> heartbeat list" where
  "recent getTime heartbeats sz =
     (let sorted_hb = sortedByTime getTime heartbeats
      in slice_from sorted_hb (startIndex (length sorted_hb) sz))"

definition lastHeartbeat :: "clock \<Rightarrow> heartbeat list \<Rightarrow> nat \<Rightarrow> heartbeat option" where
  "lastHeartbeat getTime heartbeats sz =
     (let r = recent getTime heartbeats sz in at_index r (int (length r) - 1))"

definition chunk :: "clock \<Rightarrow> heartbeat list \<Rightarrow> nat \<Rightarrow> nat \<Rightarrow> heartbeat list" where
  "chunk getTime heartbeats sz index =
     (let c = chunkSize (length (sortedByTime getTime heartbeats)) sz
      in slice (recent getTime heartbeats sz) (index * c) ((index + 1) * c))"

text \<open>The callback of \<^verbatim>\<open>Array.from\<close>: the cell at \<open>index\<close>.\<close>

definition segment :: "clock \<Rightarrow> heartbeat list \<Rightarrow> nat \<Rightarrow> nat \<Rightarrow> heartbeat option" where
  "segment getTime heartbeats sz index =
     (let ch = chunk getTime heartbeats sz index
      in if length ch \<noteq> 0 then at_index ch (int (length ch) - 1)
         else lastHeartbeat getTime heartbeats sz)"

text \<open>
  The result is an array of cells; a cell is a heartbeat or \<^verbatim>\<open>undefined\<close> (\<open>None\<close>), which
  the renderer shows as "no data". \<^verbatim>\<open>Array.from({ length: size }, f)\<close> is the list of
  \<open>f index\<close> for \<open>index\<close> from \<open>0\<close> to \<open>size - 1\<close>. The parameter \<^verbatim>\<open>size\<close> is a count of
  cells, a natural number, and is called \<open>sz\<close> (\<open>size\<close> is a constant of HOL); the source
  gives it the default 24, which is also what its only caller passes.
\<close>

definition buildHistorySegments :: "clock \<Rightarrow> heartbeat list \<Rightarrow> nat \<Rightarrow> heartbeat option list" where
  "buildHistorySegments getTime heartbeats sz =
     (if length heartbeats = 0 then []
      else map (segment getTime heartbeats sz) [0..<sz])"

subsection \<open>Concrete inputs\<close>

text \<open>
  A clock for the examples: four strings in the date-time format of the language standard
  (\<^verbatim>\<open>YYYY-MM-DDTHH:mm:ss.sssZ\<close>) with their time values; every other string is taken as
  unparseable, as \<^verbatim>\<open>''garbage''\<close> is for every engine.
\<close>

definition isoClock :: clock where
  "isoClock s =
     (if s = ''1970-01-01T00:00:00.001Z'' then Some 1
      else if s = ''1970-01-01T00:00:00.002Z'' then Some 2
      else if s = ''1970-01-01T00:00:00.003Z'' then Some 3
      else if s = ''1970-01-01T00:00:00.004Z'' then Some 4
      else None)"

text \<open>A heartbeat of monitor 1 with a given id, status and time string.\<close>

definition beat :: "int \<Rightarrow> int \<Rightarrow> string \<Rightarrow> heartbeat" where
  "beat i st t =
     \<lparr>id_hb = i, monitor_id = 1, status = st, msg = ''200 - OK'', time = t,
      ping = 20, duration = 0, down_count = 0, important = 0\<rparr>"

definition hb1 :: heartbeat where "hb1 = beat 1 1 ''1970-01-01T00:00:00.001Z''"
definition hb2 :: heartbeat where "hb2 = beat 2 0 ''1970-01-01T00:00:00.002Z''"
definition hb3 :: heartbeat where "hb3 = beat 3 1 ''1970-01-01T00:00:00.003Z''"
definition hb2' :: heartbeat where "hb2' = beat 5 1 ''1970-01-01T00:00:00.002Z''"
definition hbBad :: heartbeat where "hbBad = beat 9 1 ''garbage''"

text \<open>
  The order of two cells by the time values of their heartbeats: both cells hold a heartbeat,
  both timestamps parse, and the first is not after the second.
\<close>

definition notAfter :: "clock \<Rightarrow> heartbeat option \<Rightarrow> heartbeat option \<Rightarrow> bool" where
  "notAfter getTime a b =
     (case (a, b) of
        (Some x, Some y) \<Rightarrow>
          (case (timeOf getTime x, timeOf getTime y) of
             (Some s, Some t) \<Rightarrow> s \<le> t
           | _ \<Rightarrow> False)
      | _ \<Rightarrow> False)"

section \<open>Auxiliary facts\<close>

subsection \<open>The sort\<close>

lemma mset_insertSorted: "mset (insertSorted c x ys) = add_mset x (mset ys)"
  by (induction ys) simp_all

lemma mset_js_sort: "mset (js_sort c xs) = mset xs"
  by (induction xs) (simp_all add: js_sort_def mset_insertSorted)

lemma set_js_sort: "set (js_sort c xs) = set xs"
  using mset_js_sort [of c xs] by (metis set_mset_mset)

lemma length_js_sort: "length (js_sort c xs) = length xs"
  using mset_js_sort [of c xs] by (metis size_mset)

lemma js_sort_Cons: "js_sort c (x # xs) = insertSorted c x (js_sort c xs)"
  by (simp add: js_sort_def)

lemma sortCompare_le:
  assumes "timeOf g a \<noteq> None" "timeOf g b \<noteq> None"
  shows "sortCompare (compareTime g) a b \<le> 0 \<longleftrightarrow> the (timeOf g a) \<le> the (timeOf g b)"
  using assms by (auto simp: sortCompare_def compareTime_def)

lemma insertSorted_insort:
  assumes "timeOf g x \<noteq> None" "\<forall>y\<in>set ys. timeOf g y \<noteq> None"
  shows "insertSorted (compareTime g) x ys = insort_key (\<lambda>h. the (timeOf g h)) x ys"
  using assms by (induction ys) (simp_all add: sortCompare_le)

lemma sortedByTime_sort_key:
  assumes "\<forall>h\<in>set hs. timeOf g h \<noteq> None"
  shows "sortedByTime g hs = sort_key (\<lambda>h. the (timeOf g h)) hs"
  using assms
proof (induction hs)
  case Nil
  then show ?case by (simp add: sortedByTime_def js_sort_def)
next
  case (Cons a hs)
  then have ih: "js_sort (compareTime g) hs = sort_key (\<lambda>h. the (timeOf g h)) hs"
    by (simp add: sortedByTime_def)
  have "\<forall>y\<in>set (js_sort (compareTime g) hs). timeOf g y \<noteq> None"
    using Cons.prems by (simp add: set_js_sort)
  with Cons.prems have "insertSorted (compareTime g) a (js_sort (compareTime g) hs)
      = insort_key (\<lambda>h. the (timeOf g h)) a (js_sort (compareTime g) hs)"
    by (intro insertSorted_insort) simp_all
  then show ?case by (simp add: sortedByTime_def js_sort_Cons ih)
qed

lemma chunkSize_covers: "0 < sz \<Longrightarrow> n \<le> chunkSize n sz * sz"
proof -
  assume sz: "0 < sz"
  have "n + sz - 1 = (n + sz - 1) div sz * sz + (n + sz - 1) mod sz" by simp
  moreover have "(n + sz - 1) mod sz < sz" using sz by simp
  ultimately show ?thesis unfolding chunkSize_def using sz by linarith
qed

lemma chunkSize_pos: "0 < sz \<Longrightarrow> 0 < n \<Longrightarrow> 0 < chunkSize n sz"
  unfolding chunkSize_def by (simp add: div_greater_zero_iff)

lemma chunkSize_ceiling: "0 < sz \<Longrightarrow> int (chunkSize n sz) = \<lceil>real n / real sz\<rceil>"
proof -
  assume sz: "0 < sz"
  let ?c = "chunkSize n sz"
  have up: "n \<le> ?c * sz" using sz by (rule chunkSize_covers)
  have "(n + sz - 1) div sz * sz \<le> n + sz - 1" by simp
  then have lo: "?c * sz < n + sz" using sz unfolding chunkSize_def by linarith
  have "real n \<le> real ?c * real sz"
    using up by (simp flip: of_nat_mult)
  then have "real n / real sz \<le> real ?c"
    using sz by (simp add: pos_divide_le_eq)
  moreover have "real ?c * real sz < real n + real sz"
    using lo by (simp flip: of_nat_mult of_nat_add)
  then have "real ?c < (real n + real sz) / real sz"
    using sz by (simp add: pos_less_divide_eq)
  then have "real ?c < real n / real sz + 1"
    using sz by (simp add: add_divide_distrib)
  ultimately show ?thesis by linarith
qed

lemma startIndex_zero: "0 < sz \<Longrightarrow> startIndex n sz = 0"
  using chunkSize_covers [of sz n] by (simp add: startIndex_def flip: of_nat_mult)


lemma at_index_last: "xs \<noteq> [] \<Longrightarrow> at_index xs (int (length xs) - 1) = Some (last xs)"
proof -
  assume ne: "xs \<noteq> []"
  then have "0 < length xs" by simp
  then have "nat (int (length xs) - 1) = length xs - 1" "0 \<le> int (length xs) - 1" by linarith+
  then show ?thesis using ne by (simp add: at_index_def last_conv_nth)
qed

lemma recent_is_sorted: "0 < sz \<Longrightarrow> recent g hs sz = sortedByTime g hs"
  by (simp add: recent_def slice_from_def startIndex_zero)

lemma length_sortedByTime: "length (sortedByTime g hs) = length hs"
  by (simp add: sortedByTime_def length_js_sort)

lemma set_sortedByTime: "set (sortedByTime g hs) = set hs"
  by (simp add: sortedByTime_def set_js_sort)

lemma sortedByTime_nonempty: "hs \<noteq> [] \<Longrightarrow> sortedByTime g hs \<noteq> []"
  using length_sortedByTime [of g hs] by auto

lemma lastHeartbeat_eq:
  assumes "0 < sz" "hs \<noteq> []"
  shows "lastHeartbeat g hs sz = Some (last (sortedByTime g hs))"
  using assms
  by (simp add: lastHeartbeat_def recent_is_sorted Let_def at_index_last sortedByTime_nonempty)

lemma chunk_eq:
  assumes "0 < sz"
  shows "chunk g hs sz i =
    take (chunkSize (length hs) sz) (drop (i * chunkSize (length hs) sz) (sortedByTime g hs))"
  using assms by (simp add: chunk_def recent_is_sorted length_sortedByTime slice_def Let_def)

lemma segment_cases:
  "segment g hs sz i =
     (if chunk g hs sz i \<noteq> [] then Some (last (chunk g hs sz i)) else lastHeartbeat g hs sz)"
  by (simp add: segment_def Let_def at_index_last)

lemma last_take_drop:
  assumes "k < length xs" "0 < c"
  shows "last (take c (drop k xs)) = xs ! (min (k + c) (length xs) - 1)"
proof -
  let ?ys = "take c (drop k xs)"
  have len: "length ?ys = min c (length xs - k)" by simp
  have pos: "0 < length ?ys" using assms by simp
  define j where "j = length ?ys - 1"
  have j: "j < c" "k + j < length xs" "k + j = min (k + c) (length xs) - 1"
    using assms unfolding j_def len by (auto simp: min_def)
  have "?ys \<noteq> []" using pos by blast
  then have "last ?ys = ?ys ! j" unfolding j_def by (rule last_conv_nth)
  also have "\<dots> = drop k xs ! j" using j(1) by (rule nth_take)
  also have "\<dots> = xs ! (k + j)" using assms(1) by (simp add: nth_drop)
  finally show ?thesis using j(3) by simp
qed

lemma segment_eq:
  assumes "0 < sz" "hs \<noteq> []"
  shows "segment g hs sz i =
    Some (sortedByTime g hs ! (min ((i + 1) * chunkSize (length hs) sz) (length hs) - 1))"
proof -
  let ?c = "chunkSize (length hs) sz"
  let ?n = "length hs"
  let ?S = "sortedByTime g hs"
  have c: "0 < ?c" using assms by (simp add: chunkSize_pos)
  have ch: "chunk g hs sz i = take ?c (drop (i * ?c) ?S)" using assms(1) by (rule chunk_eq)
  show ?thesis
  proof (cases "i * ?c < ?n")
    case True
    then have ne: "chunk g hs sz i \<noteq> []" using c by (simp add: ch length_sortedByTime)
    have "last (chunk g hs sz i) = ?S ! (min (i * ?c + ?c) ?n - 1)"
      unfolding ch using True c last_take_drop [of "i * ?c" ?S ?c]
      by (simp add: length_sortedByTime)
    then show ?thesis using ne by (simp add: segment_cases add.commute)
  next
    case False
    then have "chunk g hs sz i = []" by (simp add: ch length_sortedByTime)
    then have "segment g hs sz i = Some (last ?S)"
      using assms by (simp add: segment_cases lastHeartbeat_eq)
    moreover have "min ((i + 1) * ?c) ?n = ?n" using False by (simp add: min_def)
    moreover have "last ?S = ?S ! (?n - 1)"
      using assms(2) by (simp add: last_conv_nth sortedByTime_nonempty length_sortedByTime)
    ultimately show ?thesis by simp
  qed
qed


subsection \<open>The cells\<close>

lemma nth_build:
  assumes "hs \<noteq> []" "i < sz"
  shows "buildHistorySegments g hs sz ! i =
    Some (sortedByTime g hs ! (min ((i + 1) * chunkSize (length hs) sz) (length hs) - 1))"
proof -
  have "0 < sz" using assms(2) by simp
  then show ?thesis using assms by (simp add: buildHistorySegments_def segment_eq)
qed

lemma length_build: "hs \<noteq> [] \<Longrightarrow> length (buildHistorySegments g hs sz) = sz"
  by (simp add: buildHistorySegments_def)

lemma last_build:
  assumes "hs \<noteq> []" "0 < sz"
  shows "last (buildHistorySegments g hs sz) = Some (last (sortedByTime g hs))"
proof -
  let ?out = "buildHistorySegments g hs sz"
  let ?S = "sortedByTime g hs"
  have len: "length ?out = sz" using assms(1) by (rule length_build)
  then have "?out \<noteq> []" using assms(2) by auto
  then have "last ?out = ?out ! (sz - 1)" using len by (simp add: last_conv_nth)
  also have "\<dots> = Some (?S ! (min ((sz - 1 + 1) * chunkSize (length hs) sz) (length hs) - 1))"
    using assms by (intro nth_build) simp_all
  also have "sz - 1 + 1 = sz" using assms(2) by simp
  also have "min (sz * chunkSize (length hs) sz) (length hs) = length hs"
    using chunkSize_covers [OF assms(2), of "length hs"] by (simp add: mult.commute)
  also have "?S ! (length hs - 1) = last ?S"
    using assms(1) by (simp add: last_conv_nth sortedByTime_nonempty length_sortedByTime)
  finally show ?thesis .
qed

lemma last_filter_last:
  assumes "xs \<noteq> []" "P (last xs)"
  shows "last (filter P xs) = last xs"
  using assms
proof (induction xs)
  case Nil
  then show ?case by simp
next
  case (Cons x xs)
  show ?case
  proof (cases "xs = []")
    case True
    with Cons.prems show ?thesis by simp
  next
    case False
    with Cons.prems have P: "P (last xs)" by simp
    have "last xs \<in> set xs" using False by simp
    with P have "filter P xs \<noteq> []" by (auto simp: filter_empty_conv)
    then show ?thesis using False Cons.IH [OF False P] by simp
  qed
qed

lemma last_sortedByTime:
  assumes "hs \<noteq> []" "\<forall>h\<in>set hs. timeOf g h \<noteq> None"
  shows "\<exists>tm. timeOf g (last (sortedByTime g hs)) = Some tm
    \<and> last (sortedByTime g hs) \<in> set hs
    \<and> (\<forall>h\<in>set hs. \<forall>t. timeOf g h = Some t \<longrightarrow> t \<le> tm)
    \<and> last (sortedByTime g hs) = last (filter (\<lambda>h. timeOf g h = Some tm) hs)"
proof -
  let ?key = "\<lambda>h. the (timeOf g h)"
  let ?S = "sortedByTime g hs"
  let ?m = "last ?S"
  have S: "?S = sort_key ?key hs" using assms(2) by (rule sortedByTime_sort_key)
  have ne: "?S \<noteq> []" using assms(1) by (rule sortedByTime_nonempty)
  have mem: "?m \<in> set hs" using ne last_in_set [of ?S] by (simp add: set_sortedByTime)
  then obtain tm where tm: "timeOf g ?m = Some tm" using assms(2) by auto
  have srt: "sorted (map ?key ?S)" unfolding S by simp
  have max: "t \<le> tm" if "h \<in> set hs" "timeOf g h = Some t" for h t
  proof -
    from that(1) have "h \<in> set ?S" by (simp add: set_sortedByTime)
    then obtain i where i: "i < length ?S" "?S ! i = h" by (auto simp: in_set_conv_nth)
    have "map ?key ?S ! i \<le> map ?key ?S ! (length ?S - 1)"
      using srt i(1) by (intro sorted_nth_mono) auto
    then have "?key h \<le> ?key ?m" using i ne by (simp add: last_conv_nth)
    then show ?thesis using that(2) tm by simp
  qed
  have "?m = last (filter (\<lambda>h. ?key h = tm) ?S)"
    using tm ne by (simp add: last_filter_last)
  also have "filter (\<lambda>h. ?key h = tm) ?S = filter (\<lambda>h. ?key h = tm) hs"
    unfolding S by (rule sort_key_stable)
  also have "\<dots> = filter (\<lambda>h. timeOf g h = Some tm) hs"
    using assms(2) by (intro filter_cong) auto
  finally show ?thesis using tm mem max by blast
qed

lemma segments_from_input:
  assumes "hs \<noteq> []"
  shows "set (buildHistorySegments g hs sz) \<subseteq> Some ` set hs"
proof
  fix b assume b: "b \<in> set (buildHistorySegments g hs sz)"
  have len: "length (buildHistorySegments g hs sz) = sz" using assms by (rule length_build)
  from b obtain i where i: "i < sz" "b = buildHistorySegments g hs sz ! i"
    using len by (auto simp: in_set_conv_nth)
  let ?n = "length hs"
  let ?j = "min ((i + 1) * chunkSize ?n sz) ?n - 1"
  have "?j \<le> ?n - 1" by (intro diff_le_mono) simp
  moreover have "0 < ?n" using assms by simp
  ultimately have "?j < ?n" by linarith
  then have "?j < length (sortedByTime g hs)" by (simp only: length_sortedByTime)
  then have "sortedByTime g hs ! ?j \<in> set hs"
    using nth_mem [of ?j "sortedByTime g hs"] by (simp add: set_sortedByTime)
  then show "b \<in> Some ` set hs" using i by (simp add: nth_build [OF assms i(1)])
qed

subsection \<open>Permutations of the input\<close>

lemma filter_same_key_inj:
  assumes "inj_on f (set xs)" "k \<in> set xs"
  shows "filter (\<lambda>x. f k = f x) xs = replicate (count (mset xs) k) k"
proof -
  have "filter (\<lambda>x. f k = f x) xs = filter ((=) k) xs"
    using assms by (intro filter_cong) (auto dest: inj_onD)
  then show ?thesis by (simp add: replicate_count_mset_eq_filter_eq)
qed

lemma sort_key_perm_inj:
  assumes "mset ys = mset xs" "inj_on f (set xs)"
  shows "sort_key f xs = sort_key f ys"
proof (rule properties_for_sort_key)
  show "mset (sort_key f ys) = mset xs" using assms(1) by simp
  show "sorted (map f (sort_key f ys))" by simp
  fix k assume k: "k \<in> set (sort_key f ys)"
  have sets: "set ys = set xs" using assms(1) by (rule mset_eq_setD)
  have kx: "k \<in> set xs" using k sets by simp
  have "filter (\<lambda>x. f k = f x) (sort_key f ys) = filter (\<lambda>y. f y = f k) (sort_key f ys)"
    by (intro filter_cong) auto
  also have "\<dots> = filter (\<lambda>y. f y = f k) ys" by (rule sort_key_stable)
  also have "\<dots> = filter (\<lambda>x. f k = f x) ys" by (intro filter_cong) auto
  also have "\<dots> = replicate (count (mset ys) k) k"
    using assms(2) kx unfolding sets [symmetric] by (rule filter_same_key_inj)
  also have "\<dots> = replicate (count (mset xs) k) k" using assms(1) by simp
  also have "\<dots> = filter (\<lambda>x. f k = f x) xs"
    using assms(2) kx by (rule filter_same_key_inj [symmetric])
  finally show "filter (\<lambda>x. f k = f x) (sort_key f ys) = filter (\<lambda>x. f k = f x) xs" .
qed

lemma build_depends_on_sorted:
  assumes "sortedByTime g hs = sortedByTime g hs'"
  shows "buildHistorySegments g hs sz = buildHistorySegments g hs' sz"
proof -
  have len: "length hs = length hs'"
    using assms length_sortedByTime [of g hs] length_sortedByTime [of g hs'] by simp
  have "segment g hs sz = segment g hs' sz"
    by (rule ext) (simp only: segment_def chunk_def lastHeartbeat_def recent_def assms)
  then show ?thesis by (simp add: buildHistorySegments_def len)
qed

subsection \<open>Unfolding the model on concrete inputs\<close>

lemmas model_defs = buildHistorySegments_def segment_def chunk_def lastHeartbeat_def recent_def
  sortedByTime_def js_sort_def compareTime_def timeOf_def sortCompare_def chunkSize_def
  startIndex_def slice_def slice_from_def at_index_def

lemmas input_defs = isoClock_def beat_def hb1_def hb2_def hb3_def hb2'_def hbBad_def

section \<open>Properties\<close>

text \<open>
  In the statements below the parameter \<^verbatim>\<open>size\<close> of the source is \<open>sz\<close>, the
  specification's \<open>bucketCount\<close>; a sample of the specification is a heartbeat, and a
  bucket is a cell of the result. The specification's samples carry a timestamp that is an
  instant, and it declares an unparseable timestamp a violated precondition (section 4.1);
  where a statement speaks of the order of timestamps, the hypothesis
  \<open>\<forall>h\<in>set heartbeats. timeOf getTime h \<noteq> None\<close> says that every timestamp of the input
  parses. What the function does outside this domain is the subject of C9.
\<close>

text \<open>
  C1. For every non-empty input and every positive \<open>sz\<close>, the last cell holds the
  maximum-timestamp sample of the input: a heartbeat \<open>m\<close> of the input whose time value
  \<open>tm\<close> is at least that of every heartbeat of the input. Where several heartbeats share
  the maximal time value, \<open>m\<close> is the one that comes last in the input (the sort is stable).
\<close>

theorem last_segment_is_most_recent:
  assumes "heartbeats \<noteq> []" and "0 < sz"
    and "\<forall>h\<in>set heartbeats. timeOf getTime h \<noteq> None"
  shows "\<exists>m tm. last (buildHistorySegments getTime heartbeats sz) = Some m
    \<and> m \<in> set heartbeats
    \<and> timeOf getTime m = Some tm
    \<and> (\<forall>h\<in>set heartbeats. \<forall>t. timeOf getTime h = Some t \<longrightarrow> t \<le> tm)
    \<and> m = last (filter (\<lambda>h. timeOf getTime h = Some tm) heartbeats)"
  using last_sortedByTime [OF assms(1) assms(3)] last_build [OF assms(1) assms(2), of getTime]
  by auto

text \<open>
  The theorem at the input \<open>[hb3, hb1, hb2]\<close> with two cells: the last cell is \<open>hb3\<close>.
\<close>

theorem last_segment_is_most_recent_witness:
  "[hb3, hb1, hb2] \<noteq> [] \<and> (0::nat) < 2
   \<and> timeOf isoClock hb3 \<noteq> None \<and> timeOf isoClock hb1 \<noteq> None
   \<and> timeOf isoClock hb2 \<noteq> None
   \<and> (\<exists>m tm. last (buildHistorySegments isoClock [hb3, hb1, hb2] 2) = Some m
        \<and> m \<in> set [hb3, hb1, hb2]
        \<and> timeOf isoClock m = Some tm
        \<and> (\<forall>h\<in>set [hb3, hb1, hb2]. \<forall>t. timeOf isoClock h = Some t \<longrightarrow> t \<le> tm)
        \<and> m = last (filter (\<lambda>h. timeOf isoClock h = Some tm) [hb3, hb1, hb2]))
   \<and> last (buildHistorySegments isoClock [hb3, hb1, hb2] 2) = Some hb3"
proof -
  have h1: "[hb3, hb1, hb2] \<noteq> []" by simp
  have h2: "(0::nat) < 2" by simp
  have t: "timeOf isoClock hb3 \<noteq> None" "timeOf isoClock hb1 \<noteq> None"
      "timeOf isoClock hb2 \<noteq> None"
    by (simp_all add: timeOf_def input_defs)
  have h3: "\<forall>h\<in>set [hb3, hb1, hb2]. timeOf isoClock h \<noteq> None"
    using t by simp
  have v: "last (buildHistorySegments isoClock [hb3, hb1, hb2] 2) = Some hb3"
    by (simp add: model_defs input_defs upt_rec)
  show ?thesis
    using h1 h2 t v last_segment_is_most_recent [OF h1 h2 h3] by blast
qed

text \<open>
  C2, as amended. For every non-empty input, whatever its length, the result has exactly
  \<open>sz\<close> cells. (The claim as worded, for every input including the empty one, fails: by
  the guard on \<^verbatim>\<open>heartbeats.length === 0\<close> the empty input gives no cell, see C3.)
\<close>

theorem nonempty_input_gives_sz_segments:
  "heartbeats \<noteq> [] \<Longrightarrow> length (buildHistorySegments getTime heartbeats sz) = sz"
  by (rule length_build)

text \<open>
  The theorem at a single heartbeat and the default of 24 cells.
\<close>

theorem nonempty_input_gives_sz_segments_witness:
  "[hb1] \<noteq> [] \<and> length (buildHistorySegments isoClock [hb1] 24) = 24"
proof -
  have h: "[hb1] \<noteq> []" by simp
  show ?thesis using h nonempty_input_gives_sz_segments [OF h, of isoClock 24] by simp
qed

text \<open>
  The claim as worded fails at the empty input with 24 cells asked for: the result does
  not have 24 cells.
\<close>

theorem empty_input_24_counterexample:
  "length (buildHistorySegments isoClock [] 24) \<noteq> 24"
  by (simp add: buildHistorySegments_def)

text \<open>
  C3. If the input sample sequence is empty, the function returns the empty sequence: zero
  cells, not \<open>sz\<close> empty ones.
\<close>

theorem empty_input_gives_no_segments: "buildHistorySegments getTime [] sz = []"
  by (simp add: buildHistorySegments_def)

text \<open>
  C4. For every input with at least \<open>sz\<close> samples, the result has \<open>sz\<close> cells.
\<close>

theorem long_input_gives_sz_segments:
  "sz \<le> length heartbeats \<Longrightarrow> length (buildHistorySegments getTime heartbeats sz) = sz"
  by (cases heartbeats) (simp_all add: buildHistorySegments_def)

text \<open>
  The theorem at three heartbeats and two cells.
\<close>

theorem long_input_gives_sz_segments_witness:
  "(2::nat) \<le> length [hb3, hb1, hb2] \<and> length (buildHistorySegments isoClock [hb3, hb1, hb2] 2) = 2"
proof -
  have h: "(2::nat) \<le> length [hb3, hb1, hb2]" by simp
  show ?thesis using h long_input_gives_sz_segments [OF h, of isoClock] by simp
qed



text \<open>
  C6, as amended. For every input whose timestamps all parse and in which two different
  samples never share a time value, and for every permutation of it, the function returns on
  the permutation what it returns on the input. (The claim as worded, for every input, fails
  where two different samples share a timestamp: the stable sort keeps them in input order.)
\<close>

theorem shuffle_with_distinct_times_same_segments:
  assumes "mset shuffled = mset heartbeats"
    and "\<forall>h\<in>set heartbeats. timeOf getTime h \<noteq> None"
    and "inj_on (timeOf getTime) (set heartbeats)"
  shows "buildHistorySegments getTime shuffled sz = buildHistorySegments getTime heartbeats sz"
proof -
  let ?key = "\<lambda>h. the (timeOf getTime h)"
  have sets: "set shuffled = set heartbeats" using assms(1) by (rule mset_eq_setD)
  have inj: "inj_on ?key (set heartbeats)"
  proof (rule inj_onI)
    fix a b assume ab: "a \<in> set heartbeats" "b \<in> set heartbeats" "?key a = ?key b"
    then have "timeOf getTime a = timeOf getTime b" using assms(2) by (metis option.expand)
    then show "a = b" using assms(3) ab(1,2) by (auto dest: inj_onD)
  qed
  have "sortedByTime getTime shuffled = sort_key ?key shuffled"
    using assms(2) unfolding sets [symmetric] by (rule sortedByTime_sort_key)
  also have "\<dots> = sort_key ?key heartbeats"
    using sort_key_perm_inj [OF assms(1) inj] by simp
  also have "\<dots> = sortedByTime getTime heartbeats"
    using assms(2) by (rule sortedByTime_sort_key [symmetric])
  finally show ?thesis by (rule build_depends_on_sorted)
qed

text \<open>
  The theorem at \<open>[hb1, hb2, hb3]\<close> and its permutation \<open>[hb3, hb1, hb2]\<close>.
\<close>

theorem shuffle_with_distinct_times_same_segments_witness:
  "mset [hb3, hb1, hb2] = mset [hb1, hb2, hb3]
   \<and> timeOf isoClock hb1 \<noteq> None \<and> timeOf isoClock hb2 \<noteq> None
   \<and> timeOf isoClock hb3 \<noteq> None
   \<and> inj_on (timeOf isoClock) (set [hb1, hb2, hb3])
   \<and> buildHistorySegments isoClock [hb3, hb1, hb2] 2 = buildHistorySegments isoClock [hb1, hb2, hb3] 2"
proof -
  have h1: "mset [hb3, hb1, hb2] = mset [hb1, hb2, hb3]" by simp
  have t: "timeOf isoClock hb3 \<noteq> None" "timeOf isoClock hb1 \<noteq> None"
      "timeOf isoClock hb2 \<noteq> None"
    by (simp_all add: timeOf_def input_defs)
  have h2: "\<forall>h\<in>set [hb1, hb2, hb3]. timeOf isoClock h \<noteq> None"
    using t by simp
  have h3: "inj_on (timeOf isoClock) (set [hb1, hb2, hb3])"
    by (simp add: timeOf_def input_defs)
  show ?thesis using h1 t h3 shuffle_with_distinct_times_same_segments [OF h1 h2 h3] by blast
qed

text \<open>
  The claim as worded fails at \<open>[hb2, hb2']\<close>, two different heartbeats with the same
  timestamp, and its permutation \<open>[hb2', hb2]\<close>, with one cell: the cell holds whichever
  comes last in the input.
\<close>

theorem shuffle_with_equal_times_counterexample:
  "mset [hb2', hb2] = mset [hb2, hb2']
   \<and> buildHistorySegments isoClock [hb2', hb2] 1 \<noteq> buildHistorySegments isoClock [hb2, hb2'] 1"
proof -
  have a: "buildHistorySegments isoClock [hb2', hb2] 1 = [Some hb2]"
    by (simp add: model_defs upt_rec isoClock_def hb2_def hb2'_def beat_def)
  have b: "buildHistorySegments isoClock [hb2, hb2'] 1 = [Some hb2']"
    by (simp add: model_defs upt_rec isoClock_def hb2_def hb2'_def beat_def)
  have "hb2 \<noteq> hb2'" by (simp add: hb2_def hb2'_def beat_def)
  then show ?thesis unfolding a b by simp
qed

text \<open>
  C7. For every non-empty input, the cells are in time order from the first to the last:
  for any two cells, the earlier one in the result holds a heartbeat whose time value is not
  after that of the later one. This covers the cells filled by the fallback.
\<close>

theorem segments_in_time_order:
  assumes "heartbeats \<noteq> []"
    and "\<forall>h\<in>set heartbeats. timeOf getTime h \<noteq> None"
  shows "sorted_wrt (notAfter getTime) (buildHistorySegments getTime heartbeats sz)"
proof -
  let ?key = "\<lambda>h. the (timeOf getTime h)"
  let ?S = "sortedByTime getTime heartbeats"
  let ?out = "buildHistorySegments getTime heartbeats sz"
  let ?n = "length heartbeats"
  let ?ix = "\<lambda>i. min ((i + 1) * chunkSize ?n sz) ?n - 1"
  have S: "?S = sort_key ?key heartbeats" using assms(2) by (rule sortedByTime_sort_key)
  have srt: "sorted (map ?key ?S)" unfolding S by simp
  have n: "0 < ?n" using assms(1) by simp
  have "notAfter getTime (?out ! i) (?out ! j)" if "i < j" "j < length ?out" for i j
  proof -
    have j: "j < sz" using that(2) assms(1) by (simp add: length_build)
    then have i: "i < sz" using that(1) by simp
    have le: "?ix i \<le> ?ix j" using that(1)
      by (intro diff_le_mono min.mono mult_le_mono1) simp_all
    have "?ix j \<le> ?n - 1" by (intro diff_le_mono) simp
    then have "?ix j < ?n" using n by linarith
    then have bj: "?ix j < length ?S" by (simp only: length_sortedByTime)
    have "map ?key ?S ! ?ix i \<le> map ?key ?S ! ?ix j"
      using srt le bj by (intro sorted_nth_mono) simp_all
    then have k: "?key (?S ! ?ix i) \<le> ?key (?S ! ?ix j)" using le bj by simp
    have "?S ! ?ix i \<in> set heartbeats" "?S ! ?ix j \<in> set heartbeats"
      using le bj nth_mem [of "?ix i" ?S] nth_mem [of "?ix j" ?S]
      by (simp_all add: set_sortedByTime)
    then obtain s t where st: "timeOf getTime (?S ! ?ix i) = Some s"
        "timeOf getTime (?S ! ?ix j) = Some t"
      using assms(2) by fastforce
    then have "s \<le> t" using k by simp
    then show ?thesis
      using st by (simp add: nth_build [OF assms(1) i] nth_build [OF assms(1) j] notAfter_def)
  qed
  then show ?thesis by (simp add: sorted_wrt_iff_nth_less)
qed

text \<open>
  The theorem at three heartbeats and four cells, the last of them a fallback cell.
\<close>

theorem segments_in_time_order_witness:
  "[hb3, hb1, hb2] \<noteq> []
   \<and> timeOf isoClock hb3 \<noteq> None \<and> timeOf isoClock hb1 \<noteq> None
   \<and> timeOf isoClock hb2 \<noteq> None
   \<and> sorted_wrt (notAfter isoClock) (buildHistorySegments isoClock [hb3, hb1, hb2] 4)
   \<and> buildHistorySegments isoClock [hb3, hb1, hb2] 4 = [Some hb1, Some hb2, Some hb3, Some hb3]"
proof -
  have h1: "[hb3, hb1, hb2] \<noteq> []" by simp
  have t: "timeOf isoClock hb3 \<noteq> None" "timeOf isoClock hb1 \<noteq> None"
      "timeOf isoClock hb2 \<noteq> None"
    by (simp_all add: timeOf_def input_defs)
  have h2: "\<forall>h\<in>set [hb3, hb1, hb2]. timeOf isoClock h \<noteq> None"
    using t by simp
  have v: "buildHistorySegments isoClock [hb3, hb1, hb2] 4 = [Some hb1, Some hb2, Some hb3, Some hb3]"
    by (simp add: model_defs input_defs upt_rec)
  show ?thesis using h1 t v segments_in_time_order [OF h1 h2, of 4] by blast
qed

text \<open>
  C8, as amended. For every non-empty input, \<open>sz = 1\<close> gives a single cell, which holds
  the maximum-timestamp sample of the input (the last such sample of the input, where
  several share the maximal time value). (The claim as worded, for every input, fails at the
  empty input, which gives no cell.)
\<close>

theorem single_segment_is_most_recent:
  assumes "heartbeats \<noteq> []"
    and "\<forall>h\<in>set heartbeats. timeOf getTime h \<noteq> None"
  shows "\<exists>m tm. buildHistorySegments getTime heartbeats 1 = [Some m]
    \<and> m \<in> set heartbeats
    \<and> timeOf getTime m = Some tm
    \<and> (\<forall>h\<in>set heartbeats. \<forall>t. timeOf getTime h = Some t \<longrightarrow> t \<le> tm)
    \<and> m = last (filter (\<lambda>h. timeOf getTime h = Some tm) heartbeats)"
proof -
  let ?out = "buildHistorySegments getTime heartbeats 1"
  have "length ?out = 1" using assms(1) by (rule length_build)
  then obtain b where b: "?out = [b]" by (cases ?out) simp_all
  have "last ?out = Some (last (sortedByTime getTime heartbeats))"
    using assms(1) by (intro last_build) simp_all
  then have "?out = [Some (last (sortedByTime getTime heartbeats))]" using b by simp
  then show ?thesis using last_sortedByTime [OF assms] by auto
qed

text \<open>
  The theorem at \<open>[hb3, hb1, hb2]\<close>: the single cell holds \<open>hb3\<close>.
\<close>

theorem single_segment_is_most_recent_witness:
  "[hb3, hb1, hb2] \<noteq> []
   \<and> timeOf isoClock hb3 \<noteq> None \<and> timeOf isoClock hb1 \<noteq> None
   \<and> timeOf isoClock hb2 \<noteq> None
   \<and> (\<exists>m tm. buildHistorySegments isoClock [hb3, hb1, hb2] 1 = [Some m]
        \<and> m \<in> set [hb3, hb1, hb2]
        \<and> timeOf isoClock m = Some tm
        \<and> (\<forall>h\<in>set [hb3, hb1, hb2]. \<forall>t. timeOf isoClock h = Some t \<longrightarrow> t \<le> tm)
        \<and> m = last (filter (\<lambda>h. timeOf isoClock h = Some tm) [hb3, hb1, hb2]))
   \<and> buildHistorySegments isoClock [hb3, hb1, hb2] 1 = [Some hb3]"
proof -
  have h1: "[hb3, hb1, hb2] \<noteq> []" by simp
  have t: "timeOf isoClock hb3 \<noteq> None" "timeOf isoClock hb1 \<noteq> None"
      "timeOf isoClock hb2 \<noteq> None"
    by (simp_all add: timeOf_def input_defs)
  have h2: "\<forall>h\<in>set [hb3, hb1, hb2]. timeOf isoClock h \<noteq> None"
    using t by simp
  have v: "buildHistorySegments isoClock [hb3, hb1, hb2] 1 = [Some hb3]"
    by (simp add: model_defs input_defs upt_rec)
  show ?thesis using h1 t v single_segment_is_most_recent [OF h1 h2] by blast
qed

text \<open>
  The claim as worded fails at the empty input: the result is not a single cell.
\<close>

theorem single_segment_empty_input_counterexample:
  "length (buildHistorySegments isoClock [] 1) \<noteq> 1"
  by (simp add: buildHistorySegments_def)

text \<open>
  C9, as amended. For every input that contains a sample with an unparseable timestamp, the
  function signals nothing: it returns \<open>sz\<close> cells, each holding a sample of the input,
  and the comparison of that sample with any sample, in either position, is read by the sort
  as 0 (the comparison function returns \<^verbatim>\<open>NaN\<close>). The source has no validation of
  timestamps and no \<^verbatim>\<open>throw\<close>. Nothing is stated about where the sample ends up: with
  three or more heartbeats the comparison is then inconsistent and the language leaves the
  order to the engine.
\<close>

theorem malformed_timestamp_is_not_rejected:
  assumes "h \<in> set heartbeats" and "timeOf getTime h = None"
  shows "length (buildHistorySegments getTime heartbeats sz) = sz
    \<and> set (buildHistorySegments getTime heartbeats sz) \<subseteq> Some ` set heartbeats
    \<and> (\<forall>x. sortCompare (compareTime getTime) h x = 0
           \<and> sortCompare (compareTime getTime) x h = 0)"
proof -
  have ne: "heartbeats \<noteq> []" using assms(1) by auto
  have "sortCompare (compareTime getTime) h x = 0 \<and> sortCompare (compareTime getTime) x h = 0"
    for x
    using assms(2) by (simp add: sortCompare_def compareTime_def split: option.splits)
  then show ?thesis
    using length_build [OF ne, of getTime sz] segments_from_input [OF ne, of getTime sz]
    by blast
qed

text \<open>
  The theorem at \<open>[hb3, hbBad]\<close> and two cells. Every comparison of these two heartbeats
  is read as 0, so the comparison function is consistent here and the stable sort of any
  engine leaves them as they are: the result is \<open>[hb3, hbBad]\<close>.
\<close>

theorem malformed_timestamp_is_not_rejected_witness:
  "hbBad \<in> set [hb3, hbBad] \<and> timeOf isoClock hbBad = None
   \<and> length (buildHistorySegments isoClock [hb3, hbBad] 2) = 2
   \<and> set (buildHistorySegments isoClock [hb3, hbBad] 2) \<subseteq> Some ` set [hb3, hbBad]
   \<and> (\<forall>x. sortCompare (compareTime isoClock) hbBad x = 0
          \<and> sortCompare (compareTime isoClock) x hbBad = 0)
   \<and> buildHistorySegments isoClock [hb3, hbBad] 2 = [Some hb3, Some hbBad]"
proof -
  have h1: "hbBad \<in> set [hb3, hbBad]" by simp
  have h2: "timeOf isoClock hbBad = None" by (simp add: timeOf_def input_defs)
  have v: "buildHistorySegments isoClock [hb3, hbBad] 2 = [Some hb3, Some hbBad]"
    by (simp add: model_defs input_defs upt_rec)
  show ?thesis using h1 h2 v malformed_timestamp_is_not_rejected [OF h1 h2, of 2] by blast
qed

text \<open>
  The claim as worded fails at the single heartbeat \<open>hbBad\<close>, whose timestamp
  \<^verbatim>\<open>garbage\<close> does not parse: the function returns a cell holding it.
\<close>

theorem malformed_timestamp_counterexample:
  "timeOf isoClock hbBad = None
   \<and> buildHistorySegments isoClock [hbBad] 1 = [Some hbBad]"
proof -
  have "timeOf isoClock hbBad = None" by (simp add: timeOf_def isoClock_def hbBad_def beat_def)
  moreover have "buildHistorySegments isoClock [hbBad] 1 = [Some hbBad]"
    by (simp add: model_defs upt_rec isoClock_def hbBad_def beat_def)
  ultimately show ?thesis by simp
qed

text \<open>
  C10. For every non-empty input and positive \<open>sz\<close>, the chunk size, which is the
  ceiling of \<open>length heartbeats / sz\<close>, satisfies
  \<open>length heartbeats \<le> chunkSize * sz\<close>; so the start index of the window is 0,
  \<open>recent\<close> is the whole sorted sequence, no sample is removed, and every cell holds an
  element of the input.
\<close>

theorem window_keeps_every_sample:
  assumes "heartbeats \<noteq> []" and "0 < sz"
  shows "length heartbeats \<le> chunkSize (length heartbeats) sz * sz
    \<and> int (chunkSize (length heartbeats) sz) = \<lceil>real (length heartbeats) / real sz\<rceil>
    \<and> startIndex (length (sortedByTime getTime heartbeats)) sz = 0
    \<and> recent getTime heartbeats sz = sortedByTime getTime heartbeats
    \<and> mset (recent getTime heartbeats sz) = mset heartbeats
    \<and> set (buildHistorySegments getTime heartbeats sz) \<subseteq> Some ` set heartbeats"
proof -
  have "mset (recent getTime heartbeats sz) = mset heartbeats"
    using assms(2) by (simp add: recent_is_sorted sortedByTime_def mset_js_sort)
  then show ?thesis
    using assms chunkSize_covers [OF assms(2)] chunkSize_ceiling [OF assms(2)]
      startIndex_zero [OF assms(2)] recent_is_sorted [OF assms(2)]
      segments_from_input [OF assms(1)]
    by blast
qed

text \<open>
  The theorem at three heartbeats and two cells.
\<close>

theorem window_keeps_every_sample_witness:
  "[hb3, hb1, hb2] \<noteq> [] \<and> (0::nat) < 2
   \<and> length [hb3, hb1, hb2] \<le> chunkSize (length [hb3, hb1, hb2]) 2 * 2
   \<and> int (chunkSize (length [hb3, hb1, hb2]) 2) = \<lceil>real (length [hb3, hb1, hb2]) / real (2::nat)\<rceil>
   \<and> startIndex (length (sortedByTime isoClock [hb3, hb1, hb2])) 2 = 0
   \<and> recent isoClock [hb3, hb1, hb2] 2 = sortedByTime isoClock [hb3, hb1, hb2]
   \<and> mset (recent isoClock [hb3, hb1, hb2] 2) = mset [hb3, hb1, hb2]
   \<and> set (buildHistorySegments isoClock [hb3, hb1, hb2] 2) \<subseteq> Some ` set [hb3, hb1, hb2]"
proof -
  have h1: "[hb3, hb1, hb2] \<noteq> []" by simp
  have h2: "(0::nat) < 2" by simp
  show ?thesis using h1 h2 window_keeps_every_sample [OF h1 h2, of isoClock] by blast
qed

end
